theory Spec2Isabelle
  imports Main
begin

section \<open>The page as the handlers of accessibility.js see it\<close>

text \<open>
  The document is a store of elements; a node is an index into it. Nodes are numbered in
  document order, so a parent has a smaller index than its children. An element carries
  exactly the properties that accessibility.js reads or writes.
\<close>

type_synonym nodeid = nat

record elem =
  tag :: string
  ident :: string
  classList :: "string list"
  attrs :: "(string \<times> string) list"
  val :: "string option"
  offsetHeight :: nat
  style_height :: string
  style_transition :: string
  parent :: "nodeid option"

text \<open>
  \<open>val\<close> is the \<open>value\<close> property: \<open>None\<close> is JavaScript's \<open>undefined\<close>, which is
  what an element that is not a form control answers. \<open>ident\<close> is the id attribute and
  \<open>attrs\<close> the remaining attributes (\<open>role\<close>, \<open>data-href\<close>).
  \<open>offsetHeight\<close> is the rendered height in pixels. No handler writes it; the
  browser does, when it lays the element out (action \<open>Layout\<close> below).
\<close>

datatype simple_sel = Tag string | Id string | Class string | AttrEq string string

type_synonym selector = "simple_sel list list"

definition getAttribute :: "elem \<Rightarrow> string \<Rightarrow> string option" where
  "getAttribute el a = map_of (attrs el) a"

fun holds :: "elem \<Rightarrow> simple_sel \<Rightarrow> bool" where
  "holds el (Tag t) = (tag el = t)"
| "holds el (Id i) = (ident el = i)"
| "holds el (Class c) = (c \<in> set (classList el))"
| "holds el (AttrEq a v) = (getAttribute el a = Some v)"

text \<open>
  A selector is a comma-separated list of compound selectors; an element matches when it
  satisfies every part of one of them.
\<close>

definition matches :: "elem \<Rightarrow> selector \<Rightarrow> bool" where
  "matches el sel = list_ex (list_all (holds el)) sel"

definition sel_key_clickable :: selector where
  "sel_key_clickable = [[AttrEq ''role'' ''button''], [Class ''key-clickable'']]"

definition sel_body :: selector where
  "sel_body = [[Tag ''body'']]"

definition sel_content_skipper :: selector where
  "sel_content_skipper = [[Class ''content-skipper'']]"

definition sel_input_invalid :: selector where
  "sel_input_invalid = [[Tag ''input'', Class ''is-invalid'']]"

definition sel_expandable :: selector where
  "sel_expandable = [[Tag ''textarea'', Class ''expandable'']]"

definition sel_edit_areas :: selector where
  "sel_edit_areas =
     [[Tag ''textarea'', Id ''user_content_edit''], [Tag ''textarea'', Id ''message-body'']]"

definition sel_form :: selector where
  "sel_form = [[Tag ''form'']]"

definition sel_user_content_edit :: selector where
  "sel_user_content_edit = [[Id ''user_content_edit'']]"

text \<open>
  The node itself followed by its ancestors. The test \<open>p < n\<close> is the document order;
  it also makes the walk total on a store that is not a tree.
\<close>

fun path :: "elem list \<Rightarrow> nodeid \<Rightarrow> nodeid list" where
  "path d n =
     (if n < length d
      then n # (case parent (d ! n) of
                  None \<Rightarrow> []
                | Some p \<Rightarrow> if p < n then path d p else [])
      else [])"

declare path.simps [simp del]

definition select_all :: "elem list \<Rightarrow> selector \<Rightarrow> nodeid list" where
  "select_all d sel = [n \<leftarrow> [0..<length d]. matches (d ! n) sel]"

text \<open>\<open>querySelector\<close> on an element: its first proper descendant, in document order,
  that matches.\<close>

definition querySelector :: "elem list \<Rightarrow> nodeid \<Rightarrow> selector \<Rightarrow> nodeid option" where
  "querySelector d root sel =
     (case [n \<leftarrow> select_all d sel. root \<in> set (tl (path d n))] of
        [] \<Rightarrow> None
      | n # _ \<Rightarrow> Some n)"

subsection \<open>Events, listeners and the window\<close>

datatype evtype = Keypress | Click | Input | Focus | TransitionEnd | Submit

record event =
  etype :: evtype
  target :: nodeid
  key :: "string option"
  bubbles :: bool

text \<open>\<open>new Event(type)\<close> dispatched on a node: no key, and it does not bubble.\<close>

definition new_Event :: "evtype \<Rightarrow> nodeid \<Rightarrow> event" where
  "new_Event t n = \<lparr>etype = t, target = n, key = None, bubbles = False\<rparr>"

datatype jsval = JUndefined | JNull | JBool bool | JStr string

fun truthy :: "jsval \<Rightarrow> bool" where
  "truthy JUndefined = False"
| "truthy JNull = False"
| "truthy (JBool b) = b"
| "truthy (JStr s) = (s \<noteq> [])"

text \<open>
  The functions that can sit in \<open>window.onbeforeunload\<close>: the two arrow functions of
  accessibility.js (the first closes over \<open>this\<close>), and any function assigned by code
  outside this file, which answers some value.
\<close>

datatype unload_fn = ValueOrNull nodeid | ConstTrue | Foreign jsval

text \<open>The seven callbacks of the file; the transitionend arrow closes over \<open>this\<close>.\<close>

datatype callback =
    KeyActivate
  | SkipContent
  | ClearInvalid
  | ExpandOnFocus
  | DisableTransition nodeid
  | ArmUnloadGuard
  | ValidateSubmit

record listener =
  lnode :: nodeid
  ltype :: evtype
  lcallback :: callback
  once :: bool

datatype nav = Replace string | Assign string

record state =
  document :: "elem list"
  listeners :: "listener list"
  onbeforeunload :: "unload_fn option"
  notifications :: "(string \<times> string) list"
  navigations :: "nav list"
  dispatched :: "event list"

text \<open>
  \<open>notifications\<close>, \<open>navigations\<close> and \<open>dispatched\<close> record the calls of \<open>notify\<close>,
  of \<open>location.replace\<close> and of \<open>dispatchEvent\<close>, in order.
\<close>

text \<open>
  The validator \<open>isValidText\<close> of ./utils and the catalogue lookup \<open>gettext\<close> are
  not among the sources either; the handlers take them as parameters.
\<close>

record env =
  isValidText :: "string \<Rightarrow> bool"
  gettext :: "string \<Rightarrow> string"

definition upd_elem :: "nodeid \<Rightarrow> (elem \<Rightarrow> elem) \<Rightarrow> state \<Rightarrow> state" where
  "upd_elem n f st = st\<lparr>document := (document st)[n := f (document st ! n)]\<rparr>"

text \<open>
  Modelled from the spec: \<open>notify(message, severity)\<close> of ./utils, which is not among
  the sources: a user-facing toast. Its only effect here is that the message is shown.
\<close>

definition notify :: "string \<Rightarrow> string \<Rightarrow> state \<Rightarrow> state" where
  "notify msg level st = st\<lparr>notifications := notifications st @ [(msg, level)]\<rparr>"

definition location_replace :: "string \<Rightarrow> state \<Rightarrow> state" where
  "location_replace url st = st\<lparr>navigations := navigations st @ [Replace url]\<rparr>"

text \<open>What the browser gets when it calls the guard at unload time.\<close>

fun call_guard :: "state \<Rightarrow> unload_fn \<Rightarrow> jsval" where
  "call_guard st (ValueOrNull n) =
     (case val (document st ! n) of
        None \<Rightarrow> JNull
      | Some v \<Rightarrow> if v \<noteq> [] then JStr v else JNull)"
| "call_guard st ConstTrue = JBool True"
| "call_guard st (Foreign v) = v"

subsection \<open>Binding\<close>

datatype target_spec = Sel selector | Element nodeid

text \<open>
  Modelled from the spec: \<open>Handle\<close> of ./utils, which is not among the sources. The spec
  gives \<open>Handle\<close> and \<open>Handler\<close> the same contract,
  \<open>Handle(selector, eventType, fn, options?)\<close>: they attach a listener filtered by a CSS
  selector, with options such as run-once. The file also passes an element instead of a
  selector (line 22), and its callbacks read \<open>this\<close> as the element the listener sits on.
  So a binding adds one listener to every element that the target selects.
\<close>

definition Handle :: "target_spec \<Rightarrow> evtype \<Rightarrow> callback \<Rightarrow> bool \<Rightarrow> state \<Rightarrow> state" where
  "Handle tgt t cb o1 st =
     st\<lparr>listeners := listeners st @
          map (\<lambda>n. \<lparr>lnode = n, ltype = t, lcallback = cb, once = o1\<rparr>)
            (case tgt of Sel s \<Rightarrow> select_all (document st) s | Element n \<Rightarrow> [n])\<rparr>"

text \<open>
  Modelled from the spec: \<open>Handler\<close> of ./utils, given the same contract as \<open>Handle\<close>
  by the spec.
\<close>

definition Handler :: "target_spec \<Rightarrow> evtype \<Rightarrow> callback \<Rightarrow> bool \<Rightarrow> state \<Rightarrow> state" where
  "Handler tgt t cb o1 st = Handle tgt t cb o1 st"

subsection \<open>The handlers\<close>

text \<open>
  A handler gets the state, \<open>this\<close> and the event, and gives back the new state, whether
  it called \<open>preventDefault\<close>, and its return value.
\<close>

type_synonym result = "state \<times> bool \<times> jsval"

text \<open>Lines 5 to 10. \<open>dispatchEvent\<close> is passed in: it runs the listeners of the
  synthetic click before the handler goes on.\<close>

definition keypress_handler ::
  "(state \<Rightarrow> event \<Rightarrow> state \<times> bool) \<Rightarrow> state \<Rightarrow> event \<Rightarrow> result" where
  "keypress_handler dispatchEvent st ev =
     (if matches (document st ! target ev) sel_key_clickable
         \<and> (key ev = Some '' '' \<or> key ev = Some ''Enter'')
      then
        let click = new_Event Click (target ev);
            st1 = st\<lparr>dispatched := dispatched st @ [click]\<rparr>
        in (fst (dispatchEvent st1 click), True, JUndefined)
      else (st, False, JUndefined))"

text \<open>Lines 12 to 14. A missing attribute reads as \<open>null\<close>, which \<open>location.replace\<close>
  turns into the string.\<close>

definition content_skipper_click :: "state \<Rightarrow> nodeid \<Rightarrow> result" where
  "content_skipper_click st this =
     (location_replace
        (case getAttribute (document st ! this) ''data-href'' of
           None \<Rightarrow> ''null''
         | Some url \<Rightarrow> url) st,
      False, JUndefined)"

text \<open>Lines 16 to 18.\<close>

definition is_invalid_input :: "state \<Rightarrow> nodeid \<Rightarrow> result" where
  "is_invalid_input st this =
     (upd_elem this (\<lambda>el. el\<lparr>classList := removeAll ''is-invalid'' (classList el)\<rparr>) st,
      False, JUndefined)"

text \<open>The decimal numeral of a number, as a template literal prints it.\<close>

fun digits :: "nat \<Rightarrow> string" where
  "digits n =
     (if n < 10 then [''0123456789'' ! n]
      else digits (n div 10) @ [''0123456789'' ! (n mod 10)])"

declare digits.simps [simp del]

definition px :: "nat \<Rightarrow> string" where
  "px n = digits n @ ''px''"

text \<open>Lines 20 to 25: the body of the focus callback. It reads the rendered height
  each time it runs, so a run after the element has grown asks for 150 pixels more
  again. The transitionend binding of line 22 is given no options.\<close>

definition expandable_focus :: "state \<Rightarrow> nodeid \<Rightarrow> result" where
  "expandable_focus st this =
     (let st1 = upd_elem this
                  (\<lambda>el. el\<lparr>style_height := px (offsetHeight el + 150)\<rparr>) st
      in (Handle (Element this) TransitionEnd (DisableTransition this) False st1,
          False, JUndefined))"

text \<open>Lines 22 to 24.\<close>

definition transitionend_handler :: "state \<Rightarrow> nodeid \<Rightarrow> result" where
  "transitionend_handler st captured =
     (upd_elem captured (\<lambda>el. el\<lparr>style_transition := ''none''\<rparr>) st, False, JUndefined)"

text \<open>Lines 27 to 29.\<close>

definition user_content_input :: "state \<Rightarrow> nodeid \<Rightarrow> result" where
  "user_content_input st this =
     (st\<lparr>onbeforeunload := Some (ValueOrNull this)\<rparr>, False, JUndefined)"

text \<open>Lines 31 to 44. \<open>userInput && userInput.value\<close> is true when the element exists
  and its value is a non-empty string.\<close>

definition form_submit :: "env \<Rightarrow> state \<Rightarrow> nodeid \<Rightarrow> result" where
  "form_submit e st this =
     (let st1 = st\<lparr>onbeforeunload := None\<rparr>;
          userInput = querySelector (document st1) this sel_user_content_edit
      in case userInput of
           None \<Rightarrow> (st1, False, JUndefined)
         | Some u \<Rightarrow>
             (case val (document st1 ! u) of
                None \<Rightarrow> (st1, False, JUndefined)
              | Some v \<Rightarrow>
                  if v \<noteq> [] then
                    if \<not> isValidText e v then
                      ((notify (gettext e ''this content includes forbidden characters.'')
                          ''error'' st1)
                          \<lparr>onbeforeunload := Some ConstTrue\<rparr>,
                       True, JBool False)
                    else (st1, False, JUndefined)
                  else (st1, False, JUndefined)))"

subsection \<open>Dispatch\<close>

fun invoke ::
  "(state \<Rightarrow> event \<Rightarrow> state \<times> bool) \<Rightarrow> env \<Rightarrow> callback \<Rightarrow> state \<Rightarrow> nodeid \<Rightarrow> event \<Rightarrow> result"
  where
  "invoke disp e KeyActivate st this ev = keypress_handler disp st ev"
| "invoke disp e SkipContent st this ev = content_skipper_click st this"
| "invoke disp e ClearInvalid st this ev = is_invalid_input st this"
| "invoke disp e ExpandOnFocus st this ev = expandable_focus st this"
| "invoke disp e (DisableTransition n) st this ev = transitionend_handler st n"
| "invoke disp e ArmUnloadGuard st this ev = user_content_input st this"
| "invoke disp e ValidateSubmit st this ev = form_submit e st this"

text \<open>
  One listener runs: a one-time listener is taken off its node before its callback is
  called. The flag collects \<open>preventDefault\<close>.
\<close>

definition run_listener ::
  "(state \<Rightarrow> event \<Rightarrow> state \<times> bool) \<Rightarrow> env \<Rightarrow> event \<Rightarrow> state \<times> bool \<Rightarrow> listener
     \<Rightarrow> state \<times> bool" where
  "run_listener disp e ev acc l =
     (let st1 = (if once l
                 then (fst acc)\<lparr>listeners := remove1 l (listeners (fst acc))\<rparr>
                 else fst acc);
          r = invoke disp e (lcallback l) st1 (lnode l) ev
      in (fst r, snd acc \<or> fst (snd r)))"

text \<open>The listeners of one node for this event type, as they are when the event
  arrives at the node.\<close>

definition listeners_for :: "state \<Rightarrow> nodeid \<Rightarrow> evtype \<Rightarrow> listener list" where
  "listeners_for st n t = [l \<leftarrow> listeners st. lnode l = n \<and> ltype l = t]"

definition deliver_at ::
  "(state \<Rightarrow> event \<Rightarrow> state \<times> bool) \<Rightarrow> env \<Rightarrow> event \<Rightarrow> state \<times> bool \<Rightarrow> nodeid
     \<Rightarrow> state \<times> bool" where
  "deliver_at disp e ev acc n =
     foldl (run_listener disp e ev) acc (listeners_for (fst acc) n (etype ev))"

definition event_path :: "elem list \<Rightarrow> event \<Rightarrow> nodeid list" where
  "event_path d ev = (if bubbles ev then path d (target ev) else [target ev])"

definition dispatch_with ::
  "(state \<Rightarrow> event \<Rightarrow> state \<times> bool) \<Rightarrow> env \<Rightarrow> state \<Rightarrow> event \<Rightarrow> state \<times> bool" where
  "dispatch_with disp e st ev =
     (if target ev < length (document st)
      then foldl (deliver_at disp e ev) (st, False) (event_path (document st) ev)
      else (st, False))"

text \<open>
  The only callback that dispatches is the keypress one, and it does so for an event
  with a key; the click it dispatches has none. So two levels of dispatch are all that
  can happen, and the innermost one below is never called (lemma
  \<open>dispatchEvent_depth\<close>).
\<close>

definition no_dispatch :: "state \<Rightarrow> event \<Rightarrow> state \<times> bool" where
  "no_dispatch st ev = (st, False)"

definition dispatchEvent :: "env \<Rightarrow> state \<Rightarrow> event \<Rightarrow> state \<times> bool" where
  "dispatchEvent e = dispatch_with (dispatch_with no_dispatch e) e"

subsection \<open>Loading the file\<close>

definition page :: "elem list \<Rightarrow> state" where
  "page d = \<lparr>document = d, listeners = [], onbeforeunload = None, notifications = [],
             navigations = [], dispatched = []\<rparr>"

text \<open>The six top-level bindings, in the order of the file.\<close>

definition accessibility_js :: "state \<Rightarrow> state" where
  "accessibility_js st =
     Handler (Sel sel_form) Submit ValidateSubmit False
       (Handler (Sel sel_edit_areas) Input ArmUnloadGuard False
         (Handler (Sel sel_expandable) Focus ExpandOnFocus True
           (Handler (Sel sel_input_invalid) Input ClearInvalid False
             (Handle (Sel sel_content_skipper) Click SkipContent False
               (Handle (Sel sel_body) Keypress KeyActivate False st)))))"

definition loaded :: "elem list \<Rightarrow> state" where
  "loaded d = accessibility_js (page d)"

text \<open>
  What happens on the page afterwards: the browser dispatches an event, the user edits
  the value of a field, or the browser lays an element out again. The rendered height
  that \<open>offsetHeight\<close> reads follows the height style (over the transition) and the
  content, so a layout may leave any height to be read next; in particular the height
  that the focus callback has just asked for.
\<close>

datatype action = Dispatch event | UserEdit nodeid string | Layout nodeid nat

fun act :: "env \<Rightarrow> state \<Rightarrow> action \<Rightarrow> state" where
  "act e st (Dispatch ev) = fst (dispatchEvent e st ev)"
| "act e st (UserEdit n v) =
     (if n < length (document st) then upd_elem n (\<lambda>el. el\<lparr>val := Some v\<rparr>) st else st)"
| "act e st (Layout n h) =
     (if n < length (document st) then upd_elem n (\<lambda>el. el\<lparr>offsetHeight := h\<rparr>) st else st)"

definition run :: "env \<Rightarrow> state \<Rightarrow> action list \<Rightarrow> state" where
  "run e st as = foldl (act e) st as"

subsection \<open>A small page to compute on\<close>

definition mk_elem ::
  "string \<Rightarrow> string \<Rightarrow> string list \<Rightarrow> (string \<times> string) list \<Rightarrow> string option \<Rightarrow> nat
     \<Rightarrow> nodeid option \<Rightarrow> elem" where
  "mk_elem t i cs as v h p =
     \<lparr>tag = t, ident = i, classList = cs, attrs = as, val = v, offsetHeight = h,
      style_height = [], style_transition = [], parent = p\<rparr>"

text \<open>A body holding a form (with the edit area and an input marked invalid) and a
  skip link.\<close>

definition example_page :: "elem list" where
  "example_page =
     [mk_elem ''body'' [] [] [] None 900 None,
      mk_elem ''form'' [] [] [] None 300 (Some 0),
      mk_elem ''textarea'' ''user_content_edit'' [''expandable''] [] (Some ''a<b'') 40 (Some 1),
      mk_elem ''input'' ''title'' [''form-control'', ''is-invalid''] [] (Some ''x'') 20 (Some 1),
      mk_elem ''a'' [] [''content-skipper'']
        [(''role'', ''button''), (''data-href'', ''/entry/7/'')] None 20 (Some 0)]"

text \<open>A validator that rejects the character \<open><\<close>, and a catalogue without
  translations.\<close>

definition example_env :: env where
  "example_env = \<lparr>isValidText = (\<lambda>s. CHR ''<'' \<notin> set s), gettext = (\<lambda>s. s)\<rparr>"

definition focus_event :: "nodeid \<Rightarrow> event" where
  "focus_event n = \<lparr>etype = Focus, target = n, key = None, bubbles = False\<rparr>"

definition transitionend_event :: "nodeid \<Rightarrow> event" where
  "transitionend_event n = \<lparr>etype = TransitionEnd, target = n, key = None, bubbles = True\<rparr>"

definition keypress_event :: "nodeid \<Rightarrow> string \<Rightarrow> event" where
  "keypress_event n k = \<lparr>etype = Keypress, target = n, key = Some k, bubbles = True\<rparr>"

definition input_event :: "nodeid \<Rightarrow> event" where
  "input_event n = \<lparr>etype = Input, target = n, key = None, bubbles = True\<rparr>"

definition example_typed :: state where
  "example_typed =
     run example_env (loaded example_page) [UserEdit 2 ''fine'', Dispatch (input_event 2)]"


definition example_cleared :: state where
  "example_cleared = act example_env example_typed (UserEdit 2 [])"

definition example_before :: "action list" where
  "example_before = [Dispatch (keypress_event 4 ''Enter''), UserEdit 2 ''fine'']"

definition example_later :: "action list" where
  "example_later = [Dispatch (transitionend_event 2), Dispatch (focus_event 2)]"


subsection \<open>The listeners and the guard that the file can produce\<close>

definition registered :: "elem list \<Rightarrow> listener \<Rightarrow> bool" where
  "registered d l =
     (lnode l < length d \<and>
      (case lcallback l of
         KeyActivate \<Rightarrow> ltype l = Keypress \<and> \<not> once l \<and> matches (d ! lnode l) sel_body
       | SkipContent \<Rightarrow> ltype l = Click \<and> \<not> once l \<and> matches (d ! lnode l) sel_content_skipper
       | ClearInvalid \<Rightarrow> ltype l = Input \<and> \<not> once l \<and> matches (d ! lnode l) sel_input_invalid
       | ExpandOnFocus \<Rightarrow> ltype l = Focus \<and> once l \<and> matches (d ! lnode l) sel_expandable
       | DisableTransition n \<Rightarrow>
           ltype l = TransitionEnd \<and> \<not> once l \<and> n = lnode l \<and> matches (d ! n) sel_expandable
       | ArmUnloadGuard \<Rightarrow> ltype l = Input \<and> \<not> once l \<and> matches (d ! lnode l) sel_edit_areas
       | ValidateSubmit \<Rightarrow> ltype l = Submit \<and> \<not> once l \<and> matches (d ! lnode l) sel_form))"

fun guard_of_file :: "elem list \<Rightarrow> unload_fn option \<Rightarrow> bool" where
  "guard_of_file d None = True"
| "guard_of_file d (Some (ValueOrNull n)) = (n < length d \<and> matches (d ! n) sel_edit_areas)"
| "guard_of_file d (Some ConstTrue) = True"
| "guard_of_file d (Some (Foreign v)) = False"

definition page_inv :: "elem list \<Rightarrow> state \<Rightarrow> bool" where
  "page_inv d s =
     (length (document s) = length d
      \<and> list_all (registered d) (listeners s)
      \<and> guard_of_file d (onbeforeunload s))"

text \<open>The two listeners that concern an expandable textarea: the one-time focus
  listener of line 20, and the transitionend listener that its callback binds.\<close>

definition focus_listener :: "nodeid \<Rightarrow> listener" where
  "focus_listener n = \<lparr>lnode = n, ltype = Focus, lcallback = ExpandOnFocus, once = True\<rparr>"

definition transition_listener :: "nodeid \<Rightarrow> listener" where
  "transition_listener n =
     \<lparr>lnode = n, ltype = TransitionEnd, lcallback = DisableTransition n, once = False\<rparr>"

text \<open>An action that can run the focus listener of a node: a focus event on it. Focus
  events do not bubble; one that is made to bubble is counted as well.\<close>

fun focuses :: "nodeid \<Rightarrow> action \<Rightarrow> bool" where
  "focuses n (Dispatch ev) = (etype ev = Focus \<and> (target ev = n \<or> bubbles ev))"
| "focuses n (UserEdit m v) = False"
| "focuses n (Layout m h) = False"

text \<open>Before the first focus the focus listener is the only listener of the node for
  focus events; afterwards there is none and the height style stays as it was set.\<close>

definition armed :: "elem list \<Rightarrow> nodeid \<Rightarrow> state \<Rightarrow> bool" where
  "armed d n s = (page_inv d s \<and> listeners_for s n Focus = [focus_listener n])"

definition spent :: "elem list \<Rightarrow> nodeid \<Rightarrow> string \<Rightarrow> state \<Rightarrow> bool" where
  "spent d n h s =
     (page_inv d s \<and> listeners_for s n Focus = [] \<and> style_height (document s ! n) = h)"

text \<open>The transitionend listener is on the node; and, once it has run, the transition
  style is \<open>none\<close>.\<close>

definition bound :: "nodeid \<Rightarrow> state \<Rightarrow> bool" where
  "bound n s = (n < length (document s) \<and> transition_listener n \<in> set (listeners s))"

definition settled :: "nodeid \<Rightarrow> state \<Rightarrow> bool" where
  "settled n s = (bound n s \<and> style_transition (document s ! n) = ''none'')"

section \<open>Properties\<close>

lemmas handler_defs =
  keypress_handler_def content_skipper_click_def is_invalid_input_def expandable_focus_def
  transitionend_handler_def user_content_input_def form_submit_def

lemmas effect_defs = upd_elem_def notify_def location_replace_def Handle_def Handler_def

subsection \<open>The submit handler\<close>

text \<open>
  Claim C1. When the form has a descendant \<open>#user_content_edit\<close> whose value is not
  empty and is rejected by \<open>isValidText\<close>, the submit handler shows exactly one error
  notification, with the localized text of "this content includes forbidden
  characters.", leaves the always-warn function as the unload guard, calls
  \<open>preventDefault\<close> and returns \<open>false\<close>. Nothing else of the page changes, and the
  guard it leaves answers a truthy value whenever it is called.
\<close>

theorem submit_invalid_blocked:
  assumes "querySelector (document st) this sel_user_content_edit = Some u"
    and "val (document st ! u) = Some v"
    and "v \<noteq> []"
    and "\<not> isValidText e v"
  shows "form_submit e st this =
           (st\<lparr>onbeforeunload := Some ConstTrue,
               notifications := notifications st
                 @ [(gettext e ''this content includes forbidden characters.'', ''error'')]\<rparr>,
            True, JBool False)
         \<and> truthy (call_guard s ConstTrue)"
  using assms by (simp add: form_submit_def notify_def)

theorem submit_invalid_blocked_witness:
  "querySelector (document (loaded example_page)) 1 sel_user_content_edit = Some 2
   \<and> val (document (loaded example_page) ! 2) = Some ''a<b''
   \<and> \<not> isValidText example_env ''a<b''
   \<and> fst (snd (form_submit example_env (loaded example_page) 1))
   \<and> snd (snd (form_submit example_env (loaded example_page) 1)) = JBool False
   \<and> onbeforeunload (fst (form_submit example_env (loaded example_page) 1)) = Some ConstTrue
   \<and> notifications (fst (form_submit example_env (loaded example_page) 1))
       = [(''this content includes forbidden characters.'', ''error'')]"
proof -
  have q: "querySelector (document (loaded example_page)) 1 sel_user_content_edit = Some 2"
    by code_simp
  have v: "val (document (loaded example_page) ! 2) = Some ''a<b''"
    by code_simp
  have n: "''a<b'' \<noteq> []" by simp
  have r: "\<not> isValidText example_env ''a<b''"
    by (simp add: example_env_def)
  have g: "gettext example_env ''this content includes forbidden characters.'' = ''this content includes forbidden characters.''"
    by (simp add: example_env_def)
  have e: "notifications (loaded example_page) = []" by code_simp
  show ?thesis
    using submit_invalid_blocked [OF q v n r, of s] q v r g e by simp
qed

text \<open>
  Claim C2. The submit handler starts by setting the unload guard to \<open>null\<close>: what it
  does is what it would do on the page with the guard already absent. And when the form
  has no descendant \<open>#user_content_edit\<close>, or that element has no value or an empty
  one, or \<open>isValidText\<close> accepts the value, the handler does not call
  \<open>preventDefault\<close>, shows nothing, and leaves the page with no guard.
\<close>

theorem submit_passes_unguarded:
  "form_submit e st this = form_submit e (st\<lparr>onbeforeunload := None\<rparr>) this
   \<and> (querySelector (document st) this sel_user_content_edit = None
        \<or> (\<exists>u. querySelector (document st) this sel_user_content_edit = Some u
              \<and> (val (document st ! u) = None
                 \<or> val (document st ! u) = Some []
                 \<or> (\<exists>v. val (document st ! u) = Some v \<and> isValidText e v)))
       \<longrightarrow> form_submit e st this = (st\<lparr>onbeforeunload := None\<rparr>, False, JUndefined))"
  by (auto simp: form_submit_def Let_def)

theorem submit_passes_unguarded_witness:
  "onbeforeunload example_typed = Some (ValueOrNull 2)
   \<and> isValidText example_env ''fine''
   \<and> form_submit example_env example_typed 1
       = (example_typed\<lparr>onbeforeunload := None\<rparr>, False, JUndefined)"
proof -
  have g: "onbeforeunload example_typed = Some (ValueOrNull 2)" by code_simp
  have q: "querySelector (document example_typed) 1 sel_user_content_edit = Some 2"
    by code_simp
  have v: "val (document example_typed ! 2) = Some ''fine''" by code_simp
  have ok: "isValidText example_env ''fine''" by (simp add: example_env_def)
  from q v ok have h:
    "querySelector (document example_typed) 1 sel_user_content_edit = None
     \<or> (\<exists>u. querySelector (document example_typed) 1 sel_user_content_edit = Some u
           \<and> (val (document example_typed ! u) = None
              \<or> val (document example_typed ! u) = Some []
              \<or> (\<exists>v. val (document example_typed ! u) = Some v \<and> isValidText example_env v)))"
    by blast
  from submit_passes_unguarded [of example_env example_typed 1] h
  have "form_submit example_env example_typed 1
          = (example_typed\<lparr>onbeforeunload := None\<rparr>, False, JUndefined)"
    by blast
  with g ok show ?thesis by simp
qed

subsection \<open>The handlers of single elements\<close>

text \<open>
  Claim C8. A click on an element whose \<open>data-href\<close> attribute holds the URL \<open>x\<close>
  makes the handler call \<open>location.replace\<close> with exactly \<open>x\<close>, once: the navigation
  replaces the current location. The handler does nothing else.
\<close>

theorem skipper_replaces_location:
  assumes "getAttribute (document st ! this) ''data-href'' = Some x"
  shows "content_skipper_click st this
           = (st\<lparr>navigations := navigations st @ [Replace x]\<rparr>, False, JUndefined)"
  using assms by (simp add: content_skipper_click_def location_replace_def)

theorem skipper_replaces_location_witness:
  "getAttribute (document (loaded example_page) ! 4) ''data-href'' = Some ''/entry/7/''
   \<and> navigations (fst (content_skipper_click (loaded example_page) 4)) = [Replace ''/entry/7/'']"
proof -
  have h: "getAttribute (document (loaded example_page) ! 4) ''data-href'' = Some ''/entry/7/''"
    by code_simp
  have n: "navigations (loaded example_page) = []" by code_simp
  from skipper_replaces_location [OF h] h n show ?thesis by simp
qed

text \<open>
  Claim C9. After the input handler of \<open>input.is-invalid\<close> has run on an element, the
  class list of that element does not contain \<open>is-invalid\<close>.
\<close>

theorem input_clears_invalid:
  assumes "this < length (document st)"
  shows "''is-invalid'' \<notin> set (classList (document (fst (is_invalid_input st this)) ! this))"
  using assms by (simp add: is_invalid_input_def upd_elem_def)

theorem input_clears_invalid_witness:
  "3 < length (document (loaded example_page))
   \<and> ''is-invalid'' \<in> set (classList (document (loaded example_page) ! 3))
   \<and> ''is-invalid'' \<notin> set (classList (document (fst (is_invalid_input (loaded example_page) 3)) ! 3))"
proof -
  have h: "3 < length (document (loaded example_page))" by code_simp
  have b: "''is-invalid'' \<in> set (classList (document (loaded example_page) ! 3))" by code_simp
  from input_clears_invalid [OF h] h b show ?thesis by simp
qed

text \<open>
  Claim C5. The input handler of the two edit areas installs a guard that reads the
  value of the textarea when it is called: on any later page on which the textarea holds
  the string \<open>v\<close>, the guard answers a truthy value exactly when \<open>v\<close> is not empty,
  and \<open>null\<close> when it is empty.
\<close>

theorem input_arms_guard:
  "onbeforeunload (fst (user_content_input st this)) = Some (ValueOrNull this)
   \<and> (\<forall>st' v. val (document st' ! this) = Some v \<longrightarrow>
          (truthy (call_guard st' (ValueOrNull this)) = (v \<noteq> []))
          \<and> (v = [] \<longrightarrow> call_guard st' (ValueOrNull this) = JNull))"
  by (simp add: user_content_input_def)

theorem input_arms_guard_witness:
  "val (document example_typed ! 2) = Some ''fine''
   \<and> truthy (call_guard example_typed (ValueOrNull 2))
   \<and> val (document example_cleared ! 2) = Some []
   \<and> call_guard example_cleared (ValueOrNull 2) = JNull"
proof -
  have v1: "val (document example_typed ! 2) = Some ''fine''" by code_simp
  have v2: "val (document example_cleared ! 2) = Some []" by code_simp
  from input_arms_guard [of example_typed 2]
  have g: "\<forall>st' v. val (document st' ! 2) = Some v \<longrightarrow>
             (truthy (call_guard st' (ValueOrNull 2)) = (v \<noteq> []))
             \<and> (v = [] \<longrightarrow> call_guard st' (ValueOrNull 2) = JNull)"
    by (rule conjunct2)
  from g v1 have "truthy (call_guard example_typed (ValueOrNull 2))" by blast
  moreover from g v2 have "call_guard example_cleared (ValueOrNull 2) = JNull" by blast
  ultimately show ?thesis using v1 v2 by simp
qed

subsection \<open>Dispatch keeps what every listener keeps\<close>

lemma foldl_invariant:
  assumes "I a" and "\<And>a x. I a \<Longrightarrow> x \<in> set xs \<Longrightarrow> I (f a x)"
  shows "I (foldl f a xs)"
  using assms by (induction xs arbitrary: a) auto

lemma foldl_establishes:
  assumes "R a" and "x \<in> set xs"
    and "\<And>a y. R a \<Longrightarrow> R (f a y)"
    and "\<And>a. R a \<Longrightarrow> N (f a x)"
    and "\<And>a y. N a \<Longrightarrow> N (f a y)"
  shows "N (foldl f a xs)"
  using assms(1,2)
proof (induction xs arbitrary: a)
  case Nil
  then show ?case by simp
next
  case (Cons y ys)
  show ?case
  proof (cases "y = x")
    case True
    have "N (f a x)" using Cons.prems(1) by (rule assms(4))
    then have "N (foldl f (f a x) ys)"
      by (rule foldl_invariant [where I = N]) (rule assms(5))
    with True show ?thesis by simp
  next
    case False
    with Cons.prems have "x \<in> set ys" by simp
    moreover have "R (f a y)" using Cons.prems(1) by (rule assms(3))
    ultimately have "N (foldl f (f a y) ys)" by (intro Cons.IH)
    then show ?thesis by simp
  qed
qed

lemma run_listener_preserves:
  assumes "P (fst acc)"
    and rm: "once l \<Longrightarrow> P ((fst acc)\<lparr>listeners := remove1 l (listeners (fst acc))\<rparr>)"
    and inv: "\<And>s. P s \<Longrightarrow> P (fst (invoke disp e (lcallback l) s (lnode l) ev))"
  shows "P (fst (run_listener disp e ev acc l))"
  using assms by (cases "once l") (simp_all add: run_listener_def Let_def)

lemma deliver_at_preserves:
  assumes init: "P (fst acc)"
    and lst: "\<And>s l. P s \<Longrightarrow> l \<in> set (listeners s) \<Longrightarrow> Q l"
    and rm: "\<And>s l. P s \<Longrightarrow> Q l \<Longrightarrow> once l \<Longrightarrow> ltype l = etype ev \<Longrightarrow> lnode l = n
               \<Longrightarrow> P (s\<lparr>listeners := remove1 l (listeners s)\<rparr>)"
    and inv: "\<And>s l. P s \<Longrightarrow> Q l \<Longrightarrow> ltype l = etype ev \<Longrightarrow> lnode l = n
               \<Longrightarrow> P (fst (invoke disp e (lcallback l) s (lnode l) ev))"
  shows "P (fst (deliver_at disp e ev acc n))"
  unfolding deliver_at_def
proof (rule foldl_invariant [where I = "\<lambda>a. P (fst a)"])
  show "P (fst acc)" by (rule init)
next
  fix a :: "state \<times> bool" and l
  assume a: "P (fst a)" and l: "l \<in> set (listeners_for (fst acc) n (etype ev))"
  from l have l': "l \<in> set (listeners (fst acc))" "lnode l = n" "ltype l = etype ev"
    by (simp_all add: listeners_for_def)
  from init l'(1) have q: "Q l" by (rule lst)
  show "P (fst (run_listener disp e ev a l))"
  proof (rule run_listener_preserves)
    show "P (fst a)" by (rule a)
  next
    assume "once l"
    with a q l' show "P ((fst a)\<lparr>listeners := remove1 l (listeners (fst a))\<rparr>)"
      by (intro rm)
  next
    fix s assume "P s"
    with q l' show "P (fst (invoke disp e (lcallback l) s (lnode l) ev))"
      by (intro inv)
  qed
qed

lemma dispatch_with_preserves:
  assumes init: "P st"
    and lst: "\<And>s l. P s \<Longrightarrow> l \<in> set (listeners s) \<Longrightarrow> Q l"
    and rm: "\<And>s l. P s \<Longrightarrow> Q l \<Longrightarrow> once l \<Longrightarrow> ltype l = etype ev
               \<Longrightarrow> (\<not> bubbles ev \<longrightarrow> lnode l = target ev)
               \<Longrightarrow> P (s\<lparr>listeners := remove1 l (listeners s)\<rparr>)"
    and inv: "\<And>s l. P s \<Longrightarrow> Q l \<Longrightarrow> ltype l = etype ev
               \<Longrightarrow> (\<not> bubbles ev \<longrightarrow> lnode l = target ev)
               \<Longrightarrow> P (fst (invoke disp e (lcallback l) s (lnode l) ev))"
  shows "P (fst (dispatch_with disp e st ev))"
proof (cases "target ev < length (document st)")
  case True
  have "P (fst (foldl (deliver_at disp e ev) (st, False) (event_path (document st) ev)))"
  proof (rule foldl_invariant [where I = "\<lambda>a. P (fst a)"])
    show "P (fst (st, False))" using init by simp
  next
    fix a :: "state \<times> bool" and n
    assume a: "P (fst a)" and "n \<in> set (event_path (document st) ev)"
    then have n: "\<not> bubbles ev \<longrightarrow> n = target ev"
      by (auto simp: event_path_def)
    show "P (fst (deliver_at disp e ev a n))"
    proof (rule deliver_at_preserves [where Q = Q])
      show "P (fst a)" by (rule a)
    next
      fix s l assume "P s" "l \<in> set (listeners s)"
      then show "Q l" by (rule lst)
    next
      fix s l assume "P s" "Q l" "once l" "ltype l = etype ev" "lnode l = n"
      with n show "P (s\<lparr>listeners := remove1 l (listeners s)\<rparr>)" by (intro rm) auto
    next
      fix s l assume "P s" "Q l" "ltype l = etype ev" "lnode l = n"
      with n show "P (fst (invoke disp e (lcallback l) s (lnode l) ev))" by (intro inv) auto
    qed
  qed
  with True show ?thesis by (simp add: dispatch_with_def)
next
  case False
  with init show ?thesis by (simp add: dispatch_with_def)
qed

text \<open>An event without the Space or Enter key never reaches the dispatcher that is
  passed in, so the result does not depend on it.\<close>

lemma invoke_keyless:
  assumes "key ev \<noteq> Some '' ''" "key ev \<noteq> Some ''Enter''"
  shows "invoke disp e cb s n ev = invoke disp' e cb s n ev"
  using assms by (cases cb) (simp_all add: keypress_handler_def)

lemma dispatch_with_keyless:
  assumes "key ev \<noteq> Some '' ''" "key ev \<noteq> Some ''Enter''"
  shows "dispatch_with disp e st ev = dispatch_with disp' e st ev"
proof -
  have "run_listener disp e ev = run_listener disp' e ev"
    by (intro ext) (simp add: run_listener_def invoke_keyless [OF assms, of disp _ _ _ _ disp'])
  then have "deliver_at disp e ev = deliver_at disp' e ev"
    by (intro ext) (simp add: deliver_at_def)
  then show ?thesis by (simp add: dispatch_with_def)
qed

lemma dispatch_with_cong:
  assumes "\<And>s t. d1 s (new_Event Click t) = d2 s (new_Event Click t)"
  shows "dispatch_with d1 e st ev = dispatch_with d2 e st ev"
proof -
  have "invoke d1 e cb s n ev = invoke d2 e cb s n ev" for cb s n
    by (cases cb) (simp_all add: keypress_handler_def Let_def assms)
  then have "run_listener d1 e ev = run_listener d2 e ev"
    by (intro ext) (simp add: run_listener_def)
  then have "deliver_at d1 e ev = deliver_at d2 e ev"
    by (intro ext) (simp add: deliver_at_def)
  then show ?thesis by (simp add: dispatch_with_def)
qed

lemma dispatchEvent_depth: "dispatch_with (dispatch_with disp e) e st ev = dispatchEvent e st ev"
  unfolding dispatchEvent_def
  by (rule dispatch_with_cong) (rule dispatch_with_keyless; simp add: new_Event_def)

lemma invoke_keyless_dispatched:
  assumes "key ev = None"
  shows "dispatched (fst (invoke disp e cb s n ev)) = dispatched s"
  using assms
  by (cases cb) (simp_all add: handler_defs effect_defs Let_def split: option.splits)

lemma dispatch_keyless_dispatched:
  assumes "key ev = None"
  shows "dispatched (fst (dispatch_with disp e st ev)) = dispatched st"
proof -
  have "(\<lambda>s. dispatched s = dispatched st) (fst (dispatch_with disp e st ev))"
    by (rule dispatch_with_preserves [where Q = "\<lambda>_. True"])
       (simp_all add: invoke_keyless_dispatched [OF assms])
  then show ?thesis .
qed

subsection \<open>The keypress handler\<close>

text \<open>
  Claim C4. For a keypress whose target matches \<open>[role=button], .key-clickable\<close> and
  whose key is Space or Enter, the handler calls \<open>preventDefault\<close> and dispatches one
  synthetic click on that target: whatever the dispatcher, the page afterwards is the
  page that the dispatcher leaves when it is given that click, on the page with the call
  recorded. With the dispatcher of the page, the click is the only event dispatched: the
  listeners that it runs dispatch nothing further.
\<close>

theorem keypress_activates:
  assumes "matches (document st ! target ev) sel_key_clickable"
    and "key ev = Some '' '' \<or> key ev = Some ''Enter''"
  shows "keypress_handler disp st ev
           = (fst (disp (st\<lparr>dispatched := dispatched st @ [new_Event Click (target ev)]\<rparr>)
                     (new_Event Click (target ev))),
              True, JUndefined)
         \<and> dispatched (fst (keypress_handler (dispatch_with no_dispatch e) st ev))
             = dispatched st @ [new_Event Click (target ev)]"
  using assms
  by (auto simp: keypress_handler_def Let_def dispatch_keyless_dispatched new_Event_def)

text \<open>On the example page the skip link has the button role, and the click that Enter
  dispatches on it runs its click listener.\<close>

theorem keypress_activates_witness:
  "matches (document (loaded example_page) ! target (keypress_event 4 ''Enter'')) sel_key_clickable
   \<and> fst (snd (keypress_handler (dispatch_with no_dispatch example_env) (loaded example_page)
                 (keypress_event 4 ''Enter'')))
   \<and> dispatched (fst (keypress_handler (dispatch_with no_dispatch example_env)
                        (loaded example_page) (keypress_event 4 ''Enter'')))
       = [new_Event Click 4]
   \<and> navigations (fst (keypress_handler (dispatch_with no_dispatch example_env)
                        (loaded example_page) (keypress_event 4 ''Enter'')))
       = [Replace ''/entry/7/'']"
proof -
  have m: "matches (document (loaded example_page) ! target (keypress_event 4 ''Enter''))
             sel_key_clickable"
    by code_simp
  have k: "key (keypress_event 4 ''Enter'') = Some '' ''
           \<or> key (keypress_event 4 ''Enter'') = Some ''Enter''"
    by (simp add: keypress_event_def)
  have t: "target (keypress_event 4 ''Enter'') = 4" by (simp add: keypress_event_def)
  have d: "dispatched (loaded example_page) = []" by code_simp
  have n: "navigations (fst (dispatch_with no_dispatch example_env
             ((loaded example_page)\<lparr>dispatched := [new_Event Click 4]\<rparr>) (new_Event Click 4)))
           = [Replace ''/entry/7/'']"
    by code_simp
  note r = keypress_activates [OF m k, of "dispatch_with no_dispatch example_env" example_env]
  from r [THEN conjunct1] t d have eq: "keypress_handler (dispatch_with no_dispatch example_env)
        (loaded example_page) (keypress_event 4 ''Enter'')
      = (fst (dispatch_with no_dispatch example_env
                ((loaded example_page)\<lparr>dispatched := [new_Event Click 4]\<rparr>)
                (new_Event Click 4)),
         True, JUndefined)"
    by simp
  from r [THEN conjunct2] t d have one: "dispatched (fst (keypress_handler (dispatch_with no_dispatch example_env)
        (loaded example_page) (keypress_event 4 ''Enter''))) = [new_Event Click 4]"
    by simp
  from eq n have "fst (snd (keypress_handler (dispatch_with no_dispatch example_env)
        (loaded example_page) (keypress_event 4 ''Enter'')))
      \<and> navigations (fst (keypress_handler (dispatch_with no_dispatch example_env)
        (loaded example_page) (keypress_event 4 ''Enter''))) = [Replace ''/entry/7/'']"
    by simp
  with m one show ?thesis by blast
qed

text \<open>
  Claim C10. For a keypress whose target does not match the selector, or whose key is
  neither Space nor Enter, the handler does nothing: the page is the same afterwards
  (guard, classes, styles, no synthetic click) and \<open>preventDefault\<close> is not called.
\<close>

theorem keypress_ignored:
  assumes "\<not> matches (document st ! target ev) sel_key_clickable
           \<or> (key ev \<noteq> Some '' '' \<and> key ev \<noteq> Some ''Enter'')"
  shows "keypress_handler disp st ev = (st, False, JUndefined)"
  using assms by (auto simp: keypress_handler_def)

theorem keypress_ignored_witness:
  "\<not> matches (document (loaded example_page) ! target (keypress_event 3 ''Enter'')) sel_key_clickable
   \<and> keypress_handler (dispatch_with no_dispatch example_env) (loaded example_page)
        (keypress_event 3 ''Enter'')
      = (loaded example_page, False, JUndefined)"
proof -
  have h: "\<not> matches (document (loaded example_page) ! target (keypress_event 3 ''Enter''))
             sel_key_clickable"
    by code_simp
  then have "\<not> matches (document (loaded example_page) ! target (keypress_event 3 ''Enter''))
               sel_key_clickable
             \<or> (key (keypress_event 3 ''Enter'') \<noteq> Some '' ''
                \<and> key (keypress_event 3 ''Enter'') \<noteq> Some ''Enter'')"
    by simp
  from keypress_ignored [OF this] h show ?thesis by simp
qed

subsection \<open>The listeners and the guard on a loaded page\<close>

lemma loaded_fields:
  "document (loaded d) = d" "onbeforeunload (loaded d) = None"
  "notifications (loaded d) = []" "navigations (loaded d) = []" "dispatched (loaded d) = []"
  by (simp_all add: loaded_def accessibility_js_def page_def effect_defs)

lemma loaded_listeners:
  "listeners (loaded d) =
     map (\<lambda>n. \<lparr>lnode = n, ltype = Keypress, lcallback = KeyActivate, once = False\<rparr>)
       (select_all d sel_body)
     @ map (\<lambda>n. \<lparr>lnode = n, ltype = Click, lcallback = SkipContent, once = False\<rparr>)
       (select_all d sel_content_skipper)
     @ map (\<lambda>n. \<lparr>lnode = n, ltype = Input, lcallback = ClearInvalid, once = False\<rparr>)
       (select_all d sel_input_invalid)
     @ map (\<lambda>n. \<lparr>lnode = n, ltype = Focus, lcallback = ExpandOnFocus, once = True\<rparr>)
       (select_all d sel_expandable)
     @ map (\<lambda>n. \<lparr>lnode = n, ltype = Input, lcallback = ArmUnloadGuard, once = False\<rparr>)
       (select_all d sel_edit_areas)
     @ map (\<lambda>n. \<lparr>lnode = n, ltype = Submit, lcallback = ValidateSubmit, once = False\<rparr>)
       (select_all d sel_form)"
  by (simp add: loaded_def accessibility_js_def page_def effect_defs)

lemma select_all_iff: "n \<in> set (select_all d sel) \<longleftrightarrow> n < length d \<and> matches (d ! n) sel"
  by (auto simp: select_all_def)

lemma page_inv_loaded: "page_inv d (loaded d)"
  by (auto simp: page_inv_def loaded_fields loaded_listeners list_all_iff registered_def
        select_all_iff)

lemma page_inv_remove:
  "page_inv d s \<Longrightarrow> page_inv d (s\<lparr>listeners := remove1 l (listeners s)\<rparr>)"
  by (auto simp: page_inv_def list_all_iff dest: notin_set_remove1)

lemma page_inv_invoke:
  assumes disp: "\<And>s ev'. page_inv d s \<Longrightarrow> page_inv d (fst (disp s ev'))"
    and "page_inv d s" and "registered d l"
  shows "page_inv d (fst (invoke disp e (lcallback l) s (lnode l) ev))"
proof (cases "lcallback l")
  case KeyActivate
  have "page_inv d (s\<lparr>dispatched := x\<rparr>)" for x
    using assms(2) by (simp add: page_inv_def)
  then show ?thesis
    using KeyActivate assms(2) by (simp add: keypress_handler_def Let_def disp)
next
  case ValidateSubmit
  then show ?thesis
    using assms(2)
    by (simp add: form_submit_def notify_def page_inv_def Let_def split: option.splits)
qed (use assms(2,3) in \<open>simp_all add: handler_defs effect_defs page_inv_def registered_def Let_def\<close>)

lemma page_inv_dispatch_with:
  assumes "\<And>s ev'. page_inv d s \<Longrightarrow> page_inv d (fst (disp s ev'))" and "page_inv d st"
  shows "page_inv d (fst (dispatch_with disp e st ev))"
proof (rule dispatch_with_preserves [where Q = "registered d"])
  show "page_inv d st" by (rule assms)
next
  fix s l assume "page_inv d s" "l \<in> set (listeners s)"
  then show "registered d l" by (simp add: page_inv_def list_all_iff)
next
  fix s l assume "page_inv d s"
  then show "page_inv d (s\<lparr>listeners := remove1 l (listeners s)\<rparr>)" by (rule page_inv_remove)
next
  fix s l assume "page_inv d s" "registered d l"
  then show "page_inv d (fst (invoke disp e (lcallback l) s (lnode l) ev))"
    by (intro page_inv_invoke assms(1))
qed

lemma page_inv_inner:
  "page_inv d s \<Longrightarrow> page_inv d (fst (dispatch_with no_dispatch e s ev))"
  by (rule page_inv_dispatch_with) (simp_all add: no_dispatch_def)

lemma page_inv_dispatchEvent:
  assumes "page_inv d st"
  shows "page_inv d (fst (dispatchEvent e st ev))"
  unfolding dispatchEvent_def
  using assms by (rule page_inv_dispatch_with [rotated]) (rule page_inv_inner)

lemma page_inv_act: "page_inv d st \<Longrightarrow> page_inv d (act e st a)"
proof (cases a)
  case (Dispatch ev)
  assume "page_inv d st"
  with Dispatch show ?thesis by (simp add: page_inv_dispatchEvent)
next
  case (UserEdit n v)
  assume "page_inv d st"
  with UserEdit show ?thesis by (simp add: page_inv_def upd_elem_def)
next
  case (Layout n h)
  assume "page_inv d st"
  with Layout show ?thesis by (simp add: page_inv_def upd_elem_def)
qed

lemma page_inv_run: "page_inv d st \<Longrightarrow> page_inv d (run e st as)"
  unfolding run_def by (rule foldl_invariant) (auto intro: page_inv_act)

text \<open>
  Claim C3. On a page that has loaded the file, after any sequence of events and edits,
  the one slot \<open>window.onbeforeunload\<close> holds nothing, or the function of the input
  handler for one of the edit areas, or the always-warn function of the submit handler;
  never a function from elsewhere.
\<close>

theorem unload_guard_invariant:
  "guard_of_file d (onbeforeunload (run e (loaded d) as))"
  using page_inv_run [OF page_inv_loaded, of d e as] by (simp add: page_inv_def)

theorem unload_guard_invariant_witness:
  "onbeforeunload example_typed = Some (ValueOrNull 2)
   \<and> guard_of_file example_page (onbeforeunload example_typed)"
proof -
  have "onbeforeunload example_typed = Some (ValueOrNull 2)" by code_simp
  moreover have "guard_of_file example_page (onbeforeunload example_typed)"
    unfolding example_typed_def by (rule unload_guard_invariant)
  ultimately show ?thesis by simp
qed

subsection \<open>The expandable textarea\<close>

lemma filter_eq_single: "distinct xs \<Longrightarrow> x \<in> set xs \<Longrightarrow> [y \<leftarrow> xs. y = x] = [x]"
  by (induction xs) (auto simp: filter_empty_conv)

lemma distinct_select_all: "distinct (select_all d sel)"
  by (simp add: select_all_def)

lemma armed_loaded:
  assumes "n < length d" "matches (d ! n) sel_expandable"
  shows "armed d n (loaded d)"
proof -
  have "n \<in> set (select_all d sel_expandable)"
    using assms by (simp add: select_all_iff)
  then have "[m \<leftarrow> select_all d sel_expandable. m = n] = [n]"
    by (intro filter_eq_single distinct_select_all)
  then have "listeners_for (loaded d) n Focus = [focus_listener n]"
    by (simp add: listeners_for_def loaded_listeners filter_map comp_def focus_listener_def)
  then show ?thesis by (simp add: armed_def page_inv_loaded)
qed

lemma listeners_for_remove1:
  "listeners_for (s\<lparr>listeners := remove1 l (listeners s)\<rparr>) n t
     = remove1 l (listeners_for s n t)"
  by (simp add: listeners_for_def filter_remove1)

lemma listeners_for_invoke:
  assumes disp: "\<And>s t'. listeners_for (fst (disp s (new_Event Click t'))) n Focus
                         = listeners_for s n Focus"
  shows "listeners_for (fst (invoke disp e cb s m ev)) n Focus = listeners_for s n Focus"
proof (cases cb)
  case KeyActivate
  then show ?thesis
    by (simp add: keypress_handler_def Let_def disp) (simp add: listeners_for_def)
qed (simp_all add: handler_defs effect_defs listeners_for_def Let_def split: option.splits)

lemma armed_dispatch_with:
  assumes d1: "\<And>s ev'. page_inv d s \<Longrightarrow> page_inv d (fst (disp s ev'))"
    and d2: "\<And>s t'. listeners_for (fst (disp s (new_Event Click t'))) n Focus
                       = listeners_for s n Focus"
    and st: "armed d n st"
    and nf: "\<not> (etype ev = Focus \<and> (target ev = n \<or> bubbles ev))"
  shows "armed d n (fst (dispatch_with disp e st ev))"
proof (rule dispatch_with_preserves [where Q = "registered d"])
  show "armed d n st" by (rule st)
next
  fix s l assume "armed d n s" "l \<in> set (listeners s)"
  then show "registered d l" by (simp add: armed_def page_inv_def list_all_iff)
next
  fix s and l :: listener
  assume s: "armed d n s" and l: "ltype l = etype ev" "\<not> bubbles ev \<longrightarrow> lnode l = target ev"
  from l nf have "l \<noteq> focus_listener n"
    by (auto simp: focus_listener_def)
  with s show "armed d n (s\<lparr>listeners := remove1 l (listeners s)\<rparr>)"
    by (simp add: armed_def page_inv_remove listeners_for_remove1)
next
  fix s l assume "armed d n s" "registered d l"
  then show "armed d n (fst (invoke disp e (lcallback l) s (lnode l) ev))"
    by (simp add: armed_def page_inv_invoke d1 listeners_for_invoke d2)
qed

lemma listeners_for_dispatch_click:
  "listeners_for (fst (dispatch_with no_dispatch e s (new_Event Click t'))) n Focus
     = listeners_for s n Focus"
proof -
  have "(\<lambda>x. listeners_for x n Focus = listeners_for s n Focus)
          (fst (dispatch_with no_dispatch e s (new_Event Click t')))"
  proof (rule dispatch_with_preserves [where Q = "\<lambda>_. True"])
    fix x and l :: listener
    assume "listeners_for x n Focus = listeners_for s n Focus"
      and "ltype l = etype (new_Event Click t')"
    then show "listeners_for (x\<lparr>listeners := remove1 l (listeners x)\<rparr>) n Focus
                 = listeners_for s n Focus"
      by (simp add: listeners_for_def new_Event_def filter_remove1 remove1_idem)
  next
    fix x l
    assume "listeners_for x n Focus = listeners_for s n Focus"
    then show "listeners_for
                 (fst (invoke no_dispatch e (lcallback l) x (lnode l) (new_Event Click t'))) n Focus
               = listeners_for s n Focus"
      by (simp add: listeners_for_invoke no_dispatch_def)
  qed simp_all
  then show ?thesis .
qed

lemma armed_dispatchEvent:
  assumes "armed d n st" and "\<not> (etype ev = Focus \<and> (target ev = n \<or> bubbles ev))"
  shows "armed d n (fst (dispatchEvent e st ev))"
  unfolding dispatchEvent_def
proof (rule armed_dispatch_with)
  fix s ev' assume "page_inv d s"
  then show "page_inv d (fst (dispatch_with no_dispatch e s ev'))" by (rule page_inv_inner)
next
  fix s t'
  show "listeners_for (fst (dispatch_with no_dispatch e s (new_Event Click t'))) n Focus
          = listeners_for s n Focus"
    by (rule listeners_for_dispatch_click)
qed (rule assms)+

lemma armed_act:
  assumes "armed d n st" and "\<not> focuses n a"
  shows "armed d n (act e st a)"
proof (cases a)
  case (Dispatch ev)
  with assms show ?thesis by (simp add: armed_dispatchEvent)
next
  case (UserEdit m v)
  with assms(1) show ?thesis
    by (simp add: armed_def page_inv_def upd_elem_def listeners_for_def)
next
  case (Layout m h)
  with assms(1) show ?thesis
    by (simp add: armed_def page_inv_def upd_elem_def listeners_for_def)
qed

lemma armed_run:
  assumes "armed d n st" and "list_all (\<lambda>a. \<not> focuses n a) as"
  shows "armed d n (run e st as)"
  unfolding run_def
proof (rule foldl_invariant [where I = "armed d n"])
  show "armed d n st" by (rule assms)
next
  fix s a assume "armed d n s" "a \<in> set as"
  with assms(2) show "armed d n (act e s a)"
    by (intro armed_act) (auto simp: list_all_iff)
qed

lemma first_focus_state:
  assumes "armed d n st" and "n < length d"
    and "etype ev = Focus" "target ev = n" "\<not> bubbles ev"
  shows "fst (dispatch_with disp e st ev)
           = fst (expandable_focus (st\<lparr>listeners := remove1 (focus_listener n) (listeners st)\<rparr>) n)"
  using assms
  by (simp add: dispatch_with_def event_path_def deliver_at_def armed_def page_inv_def
        run_listener_def focus_listener_def Let_def)

lemma first_focus_height:
  assumes "armed d n st" and "n < length d"
    and "etype ev = Focus" "target ev = n" "\<not> bubbles ev"
  shows "style_height (document (fst (dispatchEvent e st ev)) ! n)
           = px (offsetHeight (document st ! n) + 150)"
  using assms(1,2)
  by (simp add: dispatchEvent_def first_focus_state [OF assms] expandable_focus_def Let_def
        effect_defs armed_def page_inv_def)

lemma first_focus_spent:
  assumes "armed d n st" and "n < length d"
    and "etype ev = Focus" "target ev = n" "\<not> bubbles ev"
  shows "spent d n (px (offsetHeight (document st ! n) + 150)) (fst (dispatchEvent e st ev))"
proof -
  let ?s = "fst (dispatchEvent e st ev)"
  have "page_inv d st" using assms(1) by (simp add: armed_def)
  then have "page_inv d ?s" by (rule page_inv_dispatchEvent)
  moreover have "listeners_for ?s n Focus = []"
    using assms(1)
    by (simp add: dispatchEvent_def first_focus_state [OF assms] expandable_focus_def Let_def
          effect_defs armed_def listeners_for_def filter_remove1)
  ultimately show ?thesis
    by (simp add: spent_def first_focus_height [OF assms])
qed

lemma first_focus_binds:
  assumes "armed d n st" and "n < length d"
    and "etype ev = Focus" "target ev = n" "\<not> bubbles ev"
  shows "transition_listener n \<in> set (listeners (fst (dispatchEvent e st ev)))"
  by (simp add: dispatchEvent_def first_focus_state [OF assms] expandable_focus_def Let_def
        effect_defs transition_listener_def)









lemma bound_invoke:
  assumes "\<And>s ev'. bound n s \<Longrightarrow> bound n (fst (disp s ev'))" and "bound n s"
  shows "bound n (fst (invoke disp e cb s m ev))"
proof (cases cb)
  case KeyActivate
  have "bound n (s\<lparr>dispatched := x\<rparr>)" for x
    using assms(2) by (simp add: bound_def)
  then show ?thesis
    using KeyActivate assms(2) by (simp add: keypress_handler_def Let_def assms(1))
qed (use assms(2) in \<open>simp_all add: handler_defs effect_defs bound_def Let_def
       split: option.splits\<close>)

lemma bound_remove:
  assumes "bound n s" and "once l"
  shows "bound n (s\<lparr>listeners := remove1 l (listeners s)\<rparr>)"
proof -
  from assms(2) have "l \<noteq> transition_listener n"
    by (auto simp: transition_listener_def)
  with assms(1) show ?thesis by (simp add: bound_def)
qed

lemma bound_dispatch_with:
  assumes "\<And>s ev'. bound n s \<Longrightarrow> bound n (fst (disp s ev'))" and "bound n st"
  shows "bound n (fst (dispatch_with disp e st ev))"
proof (rule dispatch_with_preserves [where Q = "\<lambda>_. True"])
  fix s and l :: listener
  assume "bound n s" "once l"
  then show "bound n (s\<lparr>listeners := remove1 l (listeners s)\<rparr>)" by (rule bound_remove)
next
  fix s and l :: listener
  assume "bound n s"
  with assms(1) show "bound n (fst (invoke disp e (lcallback l) s (lnode l) ev))"
    by (rule bound_invoke)
qed (simp_all add: assms(2))

lemma bound_inner: "bound n s \<Longrightarrow> bound n (fst (dispatch_with no_dispatch e s ev))"
  by (rule bound_dispatch_with) (simp_all add: no_dispatch_def)

lemma bound_dispatchEvent: "bound n s \<Longrightarrow> bound n (fst (dispatchEvent e s ev))"
  unfolding dispatchEvent_def by (rule bound_dispatch_with) (simp_all add: bound_inner)

lemma bound_act: "bound n s \<Longrightarrow> bound n (act e s a)"
proof (cases a)
  case (Dispatch ev)
  assume "bound n s"
  with Dispatch show ?thesis by (simp add: bound_dispatchEvent)
next
  case (UserEdit m v)
  assume "bound n s"
  with UserEdit show ?thesis by (simp add: bound_def upd_elem_def)
next
  case (Layout m h)
  assume "bound n s"
  with Layout show ?thesis by (simp add: bound_def upd_elem_def)
qed

lemma bound_run: "bound n s \<Longrightarrow> bound n (run e s as)"
  unfolding run_def by (rule foldl_invariant [where I = "bound n"]) (simp_all add: bound_act)

lemma settled_invoke:
  assumes "\<And>s ev'. settled n s \<Longrightarrow> settled n (fst (disp s ev'))" and "settled n s"
  shows "settled n (fst (invoke disp e cb s m ev))"
proof (cases cb)
  case KeyActivate
  have "settled n (s\<lparr>dispatched := x\<rparr>)" for x
    using assms(2) by (simp add: settled_def bound_def)
  then show ?thesis
    using KeyActivate assms(2) by (simp add: keypress_handler_def Let_def assms(1))
next
  case ClearInvalid
  with assms(2) show ?thesis
    by (cases "m = n") (simp_all add: handler_defs effect_defs settled_def bound_def)
next
  case ExpandOnFocus
  with assms(2) show ?thesis
    by (cases "m = n") (simp_all add: handler_defs effect_defs settled_def bound_def Let_def)
next
  case (DisableTransition k)
  with assms(2) show ?thesis
    by (cases "k = n") (simp_all add: handler_defs effect_defs settled_def bound_def)
qed (use assms(2) in \<open>simp_all add: handler_defs effect_defs settled_def bound_def Let_def
       split: option.splits\<close>)

lemma settled_dispatch_with_from:
  assumes "\<And>s ev'. settled n s \<Longrightarrow> settled n (fst (disp s ev'))" and "settled n (fst acc)"
  shows "settled n (fst (foldl (deliver_at disp e ev) acc ns))"
proof (rule foldl_invariant [where I = "\<lambda>a. settled n (fst a)"])
  show "settled n (fst acc)" by (rule assms)
next
  fix a :: "state \<times> bool" and m
  assume a: "settled n (fst a)"
  show "settled n (fst (deliver_at disp e ev a m))"
  proof (rule deliver_at_preserves [where Q = "\<lambda>_. True"])
    fix s and l :: listener
    assume "settled n s" "once l"
    then show "settled n (s\<lparr>listeners := remove1 l (listeners s)\<rparr>)"
      using bound_remove [of n s l] by (simp add: settled_def)
  next
    fix s and l :: listener
    assume "settled n s"
    with assms(1) show "settled n (fst (invoke disp e (lcallback l) s (lnode l) ev))"
      by (rule settled_invoke)
  qed (simp_all add: a)
qed

lemma settled_inner:
  "settled n s \<Longrightarrow> settled n (fst (dispatch_with no_dispatch e s ev))"
  by (simp add: dispatch_with_def settled_dispatch_with_from no_dispatch_def)

text \<open>At the node itself the listener is among those delivered, and running it settles
  the style.\<close>

lemma run_transition_listener:
  assumes "bound n (fst a)"
  shows "settled n (fst (run_listener disp e ev a (transition_listener n)))"
  using assms
  by (simp add: run_listener_def transition_listener_def transitionend_handler_def
        effect_defs settled_def bound_def Let_def)

lemma run_listener_bound:
  assumes "\<And>s ev'. bound n s \<Longrightarrow> bound n (fst (disp s ev'))" and "bound n (fst a)"
  shows "bound n (fst (run_listener disp e ev a l))"
proof (rule run_listener_preserves)
  assume "once l"
  with assms(2) show "bound n ((fst a)\<lparr>listeners := remove1 l (listeners (fst a))\<rparr>)"
    by (rule bound_remove)
next
  fix s assume "bound n s"
  with assms(1) show "bound n (fst (invoke disp e (lcallback l) s (lnode l) ev))"
    by (rule bound_invoke)
qed (rule assms(2))

lemma run_listener_settled:
  assumes "\<And>s ev'. settled n s \<Longrightarrow> settled n (fst (disp s ev'))" and "settled n (fst a)"
  shows "settled n (fst (run_listener disp e ev a l))"
proof (rule run_listener_preserves)
  assume "once l"
  with assms(2) show "settled n ((fst a)\<lparr>listeners := remove1 l (listeners (fst a))\<rparr>)"
    using bound_remove [of n "fst a" l] by (simp add: settled_def)
next
  fix s assume "settled n s"
  with assms(1) show "settled n (fst (invoke disp e (lcallback l) s (lnode l) ev))"
    by (rule settled_invoke)
qed (rule assms(2))

lemma deliver_at_settles:
  assumes b: "\<And>s ev'. bound n s \<Longrightarrow> bound n (fst (disp s ev'))"
    and s: "\<And>s ev'. settled n s \<Longrightarrow> settled n (fst (disp s ev'))"
    and "bound n st" and "etype ev = TransitionEnd"
  shows "settled n (fst (deliver_at disp e ev (st, False) n))"
  unfolding deliver_at_def
proof (rule foldl_establishes
         [where R = "\<lambda>a. bound n (fst a)" and N = "\<lambda>a. settled n (fst a)"
            and x = "transition_listener n"])
  show "bound n (fst (st, False))" using assms(3) by simp
next
  show "transition_listener n \<in> set (listeners_for (fst (st, False)) n (etype ev))"
    using assms(3,4) by (simp add: listeners_for_def bound_def transition_listener_def)
next
  fix a :: "state \<times> bool" and l
  assume "bound n (fst a)"
  with b show "bound n (fst (run_listener disp e ev a l))" by (rule run_listener_bound)
next
  fix a :: "state \<times> bool"
  assume "bound n (fst a)"
  then show "settled n (fst (run_listener disp e ev a (transition_listener n)))"
    by (rule run_transition_listener)
next
  fix a :: "state \<times> bool" and l
  assume "settled n (fst a)"
  with s show "settled n (fst (run_listener disp e ev a l))" by (rule run_listener_settled)
qed

lemma event_path_starts:
  assumes "target ev < length d"
  shows "\<exists>ns. event_path d ev = target ev # ns"
  using assms by (simp add: event_path_def path.simps [of d "target ev"])

lemma transitionend_settles:
  assumes "bound n st" and "etype ev = TransitionEnd" and "target ev = n"
  shows "settled n (fst (dispatchEvent e st ev))"
proof -
  from assms(1,3) have t: "target ev < length (document st)" by (simp add: bound_def)
  then obtain ns where p: "event_path (document st) ev = n # ns"
    using event_path_starts [of ev "document st"] assms(3) by auto
  let ?inner = "dispatch_with no_dispatch e"
  have "settled n (fst (deliver_at ?inner e ev (st, False) n))"
    using assms(1,2) by (intro deliver_at_settles bound_inner settled_inner)
  then have "settled n (fst (foldl (deliver_at ?inner e ev)
                               (deliver_at ?inner e ev (st, False) n) ns))"
    by (intro settled_dispatch_with_from settled_inner)
  with t p show ?thesis by (simp add: dispatchEvent_def dispatch_with_def)
qed

text \<open>
  Claim C7, as the spec states it: the transitionend listener is one-time and is taken
  off the element after it has first run. On the example page it is not: after the first
  focus and a transitionend event the transition style has gone from empty to \<open>none\<close>,
  so the listener has run, and it is still the listener of the textarea for the next
  transitionend event.
\<close>

theorem transitionend_listener_once_counterexample:
  "style_transition (document (run example_env (loaded example_page)
       [Dispatch (focus_event 2)]) ! 2) = []
   \<and> style_transition (document (run example_env (loaded example_page)
       [Dispatch (focus_event 2), Dispatch (transitionend_event 2)]) ! 2) = ''none''
   \<and> transition_listener 2
       \<in> set (listeners (run example_env (loaded example_page)
                [Dispatch (focus_event 2), Dispatch (transitionend_event 2)]))
   \<and> listeners_for (run example_env (loaded example_page)
                [Dispatch (focus_event 2), Dispatch (transitionend_event 2)]) 2 TransitionEnd
       = [transition_listener 2]"
  by code_simp

text \<open>
  Claim C7, amended: the transitionend listener that the first focus binds is bound
  without the one-time option. At any later moment it is still on the element, and every
  transitionend event on the element runs it again: the transition style is \<open>none\<close>
  afterwards and the listener stays.
\<close>

theorem transitionend_listener_stays:
  assumes "n < length d" and "matches (d ! n) sel_expandable"
    and "list_all (\<lambda>a. \<not> focuses n a) before"
    and "etype ev = Focus" and "target ev = n" and "\<not> bubbles ev"
    and "etype tev = TransitionEnd" and "target tev = n"
  shows "transition_listener n
           \<in> set (listeners (run e (fst (dispatchEvent e (run e (loaded d) before) ev)) later))
         \<and> transition_listener n
           \<in> set (listeners (fst (dispatchEvent e
                 (run e (fst (dispatchEvent e (run e (loaded d) before) ev)) later) tev)))
         \<and> style_transition (document (fst (dispatchEvent e
                 (run e (fst (dispatchEvent e (run e (loaded d) before) ev)) later) tev)) ! n)
             = ''none''"
proof -
  let ?st = "run e (loaded d) before"
  let ?s1 = "fst (dispatchEvent e ?st ev)"
  let ?s2 = "run e ?s1 later"
  have a: "armed d n ?st"
    using assms(1-3) by (intro armed_run armed_loaded)
  note f = a assms(1,4-6)
  have "page_inv d ?s1"
    using first_focus_spent [OF f, of e] by (simp add: spent_def)
  with assms(1) have "n < length (document ?s1)" by (simp add: page_inv_def)
  with first_focus_binds [OF f, of e] have "bound n ?s1" by (simp add: bound_def)
  then have b: "bound n ?s2" by (rule bound_run)
  then have "settled n (fst (dispatchEvent e ?s2 tev))"
    using assms(7,8) by (rule transitionend_settles)
  with b show ?thesis by (simp add: settled_def bound_def)
qed

theorem transitionend_listener_stays_witness:
  "2 < length example_page
   \<and> matches (example_page ! 2) sel_expandable
   \<and> list_all (\<lambda>a. \<not> focuses 2 a) example_before
   \<and> transition_listener 2
       \<in> set (listeners (fst (dispatchEvent example_env
            (run example_env (fst (dispatchEvent example_env
               (run example_env (loaded example_page) example_before) (focus_event 2)))
               example_later) (transitionend_event 2))))
   \<and> style_transition (document (fst (dispatchEvent example_env
            (run example_env (fst (dispatchEvent example_env
               (run example_env (loaded example_page) example_before) (focus_event 2)))
               example_later) (transitionend_event 2))) ! 2) = ''none''"
proof -
  have h1: "2 < length example_page" by code_simp
  have h2: "matches (example_page ! 2) sel_expandable" by code_simp
  have h3: "list_all (\<lambda>a. \<not> focuses 2 a) example_before" by code_simp
  have h4: "etype (focus_event 2) = Focus" by (simp add: focus_event_def)
  have h5: "target (focus_event 2) = 2" by (simp add: focus_event_def)
  have h6: "\<not> bubbles (focus_event 2)" by (simp add: focus_event_def)
  have h7: "etype (transitionend_event 2) = TransitionEnd" by (simp add: transitionend_event_def)
  have h8: "target (transitionend_event 2) = 2" by (simp add: transitionend_event_def)
  from transitionend_listener_stays [OF h1 h2 h3 h4 h5 h6 h7 h8, of example_env example_later]
    h1 h2 h3
  show ?thesis by simp
qed

end
